theory Spec2Isabelle
  imports
    Main
    "HOL-Library.Word"
    "HOL-Library.Multiset"
    "HOL-Library.Char_ord"
    "HOL-Library.List_Lexorder"
begin

section \<open>The command tree of musicbot/bot.py\<close>

text \<open>
  A shallow embedding of \<^verbatim>\<open>VersionableTree\<close> (src/musicbot/bot.py). The coroutine
  methods run on one cooperative scheduler and are modelled as state transformers that
  return a result together with the new state. An exception of the source is the
  \<open>Inl\<close> branch of the result.
\<close>

subsection \<open>Data\<close>

type_synonym byte = "8 word"

text \<open>
  A scope is \<^verbatim>\<open>guild.id if guild else None\<close>: \<open>None\<close> is the global scope, \<open>Some g\<close>
  the guild with id \<open>g\<close>. A \<^verbatim>\<open>discord.abc.Snowflake\<close> object is always truthy, so
  \<^verbatim>\<open>if guild\<close> and \<^verbatim>\<open>guild is not None\<close> agree.
\<close>

type_synonym scope = "int option"

text \<open>
  A declared command (\<^verbatim>\<open>app_commands.Command\<close> or \<^verbatim>\<open>app_commands.Group\<close>), with the
  three attributes that the tree reads.
\<close>

datatype command =
  Command (name: string) (qualified_name: string) (root_parent: "command option")

text \<open>A remote record (\<^verbatim>\<open>app_commands.AppCommand\<close>): the attributes \<^verbatim>\<open>id\<close> and \<^verbatim>\<open>name\<close>.\<close>

datatype app_command =
  AppCommand (app_command_id: int) (app_command_name: string)

text \<open>What the remote registry may raise (\<^verbatim>\<open>discord.HTTPException\<close> and its kin).\<close>

datatype remote_error = HTTPException string

text \<open>
  The effects that leave the process, in the order they happen: a push
  (\<^verbatim>\<open>CommandTree.sync\<close>), a pull (\<^verbatim>\<open>CommandTree.fetch_commands\<close>) and a write to the
  digest file.
\<close>

datatype effect = Push scope | Fetch scope | WriteDigest "byte list"

text \<open>
  The remote registry is outside the repository. It is a parameter: the answer to a call,
  given all the effects that happened before it.
\<close>

type_synonym remote = "effect list \<Rightarrow> effect \<Rightarrow> remote_error + app_command list"

text \<open>
  The state of the tree and of its surroundings.
  \<^item> \<open>fallback_to_global\<close>: the constructor's flag;
  \<^item> \<open>application_commands\<close>: the dict of line 39, from scope to the cached records;
  \<^item> \<open>walk_commands\<close>: what \<^verbatim>\<open>self.walk_commands(guild=g)\<close> yields, per scope;
  \<^item> \<open>get_all_commands\<close>: what \<^verbatim>\<open>self._get_all_commands(guild=None)\<close> returns;
  \<^item> \<open>tree_hash_file\<close>: the bytes of \<^verbatim>\<open>musicbot_tree.hash\<close>, \<open>None\<close> when the file
    does not exist;
  \<^item> \<open>trace\<close>: the effects so far, oldest first.
\<close>

record state =
  fallback_to_global :: bool
  application_commands :: "scope \<Rightarrow> app_command list option"
  walk_commands :: "scope \<Rightarrow> command list"
  get_all_commands :: "command list"
  tree_hash_file :: "byte list option"
  trace :: "effect list"

subsection \<open>on_error (lines 41-48)\<close>

datatype app_command_error = MusicBotError (message: string) | OtherAppCommandError string

text \<open>What \<^verbatim>\<open>on_error\<close> awaits: one of the three calls of its body.\<close>

datatype error_action =
  ResponseSendMessage string
| FollowupSend string
| SuperOnError app_command_error

text \<open>The interaction enters through \<^verbatim>\<open>itx.response.is_done()\<close> only.\<close>

fun on_error :: "bool \<Rightarrow> app_command_error \<Rightarrow> error_action" where
  "on_error is_done (MusicBotError m) =
     (if \<not> is_done then ResponseSendMessage m else FollowupSend m)"
| "on_error is_done (OtherAppCommandError e) = SuperOnError (OtherAppCommandError e)"

subsection \<open>sync and fetch_commands (lines 50-58)\<close>

text \<open>
  The call to the superclass reaches the remote registry. When it raises, the assignment
  to the cache is not reached.
\<close>

definition sync :: "remote \<Rightarrow> state \<Rightarrow> scope \<Rightarrow> (remote_error + app_command list) \<times> state" where
  "sync rem st guild =
     (let st1 = st\<lparr>trace := trace st @ [Push guild]\<rparr>
      in case rem (trace st) (Push guild) of
           Inl e \<Rightarrow> (Inl e, st1)
         | Inr ret \<Rightarrow>
             (Inr ret, st1\<lparr>application_commands := (application_commands st1)(guild \<mapsto> ret)\<rparr>))"

definition fetch_commands ::
  "remote \<Rightarrow> state \<Rightarrow> scope \<Rightarrow> (remote_error + app_command list) \<times> state" where
  "fetch_commands rem st guild =
     (let st1 = st\<lparr>trace := trace st @ [Fetch guild]\<rparr>
      in case rem (trace st) (Fetch guild) of
           Inl e \<Rightarrow> (Inl e, st1)
         | Inr ret \<Rightarrow>
             (Inr ret, st1\<lparr>application_commands := (application_commands st1)(guild \<mapsto> ret)\<rparr>))"

subsection \<open>find_mention_for (lines 60-116)\<close>

datatype reference = ByName string | ByHandle command

text \<open>\<^verbatim>\<open>discord.utils.get\<close> with one attribute: the first element that matches.\<close>

definition get_by_qualified_name :: "command list \<Rightarrow> string \<Rightarrow> command option" where
  "get_by_qualified_name cs n = find (\<lambda>c. qualified_name c = n) cs"

definition get_by_name :: "app_command list \<Rightarrow> string \<Rightarrow> app_command option" where
  "get_by_name rs n = find (\<lambda>r. app_command_name r = n) rs"

text \<open>\<^verbatim>\<open>(_command.root_parent or _command).name\<close>; a group object is always truthy.\<close>

definition lookup_name :: "command \<Rightarrow> string" where
  "lookup_name c = (case root_parent c of Some p \<Rightarrow> name p | None \<Rightarrow> name c)"

text \<open>\<^verbatim>\<open>str\<close> of an integer, as the f-string of line 116 formats the identifier.\<close>

fun str_nat :: "nat \<Rightarrow> string" where
  "str_nat n =
     (if n < 10 then [char_of (48 + n)] else str_nat (n div 10) @ [char_of (48 + n mod 10)])"

declare str_nat.simps [simp del]

definition str_int :: "int \<Rightarrow> string" where
  "str_int i = (if i < 0 then CHR ''-'' # str_nat (nat (- i)) else str_nat (nat i))"

definition mention :: "command \<Rightarrow> app_command \<Rightarrow> string" where
  "mention c r = ''</'' @ qualified_name c @ '':'' @ str_int (app_command_id r) @ ''>''"

text \<open>Line 78.\<close>

definition check_global :: "state \<Rightarrow> scope \<Rightarrow> bool" where
  "check_global st guild = (fallback_to_global st \<or> guild \<noteq> None)"

text \<open>Lines 80-89.\<close>

definition resolve_command :: "state \<Rightarrow> reference \<Rightarrow> scope \<Rightarrow> command option" where
  "resolve_command st command guild =
     (case command of
        ByName n \<Rightarrow>
          (case get_by_qualified_name (walk_commands st guild) n of
             Some c \<Rightarrow> Some c
           | None \<Rightarrow>
               if check_global st guild then get_by_qualified_name (walk_commands st None) n
               else None)
      | ByHandle c \<Rightarrow> Some c)"

text \<open>The \<^verbatim>\<open>try\<close>/\<^verbatim>\<open>except KeyError\<close> of lines 95-98 and 106-109.\<close>

definition cached_or_fetch ::
  "remote \<Rightarrow> state \<Rightarrow> scope \<Rightarrow> (remote_error + app_command list) \<times> state" where
  "cached_or_fetch rem st s =
     (case application_commands st s of
        Some rs \<Rightarrow> (Inr rs, st)
      | None \<Rightarrow> fetch_commands rem st s)"

text \<open>Lines 94-103.\<close>

definition find_local ::
  "remote \<Rightarrow> state \<Rightarrow> command \<Rightarrow> scope \<Rightarrow> (remote_error + app_command option) \<times> state" where
  "find_local rem st c guild =
     (case guild of
        Some g \<Rightarrow>
          (case cached_or_fetch rem st (Some g) of
             (Inl e, st') \<Rightarrow> (Inl e, st')
           | (Inr local_commands, st') \<Rightarrow> (Inr (get_by_name local_commands (lookup_name c)), st'))
      | None \<Rightarrow> (Inr None, st))"

text \<open>Lines 105-111.\<close>

definition find_global ::
  "remote \<Rightarrow> state \<Rightarrow> command \<Rightarrow> scope \<Rightarrow> app_command option \<Rightarrow>
     (remote_error + app_command option) \<times> state" where
  "find_global rem st c guild app_command_found =
     (if check_global st guild \<and> app_command_found = None then
        (case cached_or_fetch rem st None of
           (Inl e, st') \<Rightarrow> (Inl e, st')
         | (Inr global_commands, st') \<Rightarrow>
             (Inr (get_by_name global_commands (lookup_name c)), st'))
      else (Inr app_command_found, st))"

definition find_mention_for ::
  "remote \<Rightarrow> state \<Rightarrow> reference \<Rightarrow> scope \<Rightarrow> (remote_error + string option) \<times> state" where
  "find_mention_for rem st command guild =
     (case resolve_command st command guild of
        None \<Rightarrow> (Inr None, st)
      | Some c \<Rightarrow>
          (case find_local rem st c guild of
             (Inl e, st1) \<Rightarrow> (Inl e, st1)
           | (Inr found, st1) \<Rightarrow>
               (case find_global rem st1 c guild found of
                  (Inl e, st2) \<Rightarrow> (Inl e, st2)
                | (Inr None, st2) \<Rightarrow> (Inr None, st2)
                | (Inr (Some r), st2) \<Rightarrow> (Inr (Some (mention c r)), st2))))"

subsection \<open>get_hash (lines 118-129)\<close>

text \<open>
  The libraries that \<^verbatim>\<open>get_hash\<close> calls are outside the repository and are parameters:
  \<^item> \<open>to_dict\<close>: \<^verbatim>\<open>command.to_dict(self)\<close>;
  \<^item> \<open>translator\<close>: \<^verbatim>\<open>self.translator\<close>; when it is set, the function is
    \<^verbatim>\<open>command.get_translated_payload(self, translator)\<close>;
  \<^item> \<open>json_dumps\<close>: \<^verbatim>\<open>json.dumps(payload).encode("utf-8")\<close>;
  \<^item> \<open>xxh3_64\<close>: the 64-bit XXH3 hash of the data under a seed.
\<close>

record 'p libs =
  to_dict :: "command \<Rightarrow> 'p"
  translator :: "(command \<Rightarrow> 'p) option"
  json_dumps :: "'p list \<Rightarrow> byte list"
  xxh3_64 :: "byte list \<Rightarrow> 64 word \<Rightarrow> 64 word"

text \<open>
  \<^verbatim>\<open>xxhash.xxh3_64_digest\<close> returns the 64-bit hash as eight bytes, the most significant
  byte first.
\<close>

definition digest_bytes :: "64 word \<Rightarrow> byte list" where
  "digest_bytes w = map (\<lambda>i. ucast (drop_bit (8 * i) w)) [7, 6, 5, 4, 3, 2, 1, 0 :: nat]"

text \<open>
  Line 121: \<^verbatim>\<open>sorted\<close> is stable and compares the keys as strings, as \<open>sort_key\<close> does
  with the lexicographic order of lists of characters.
\<close>

definition tree_commands :: "command list \<Rightarrow> command list" where
  "tree_commands cs = sort_key qualified_name cs"

text \<open>Lines 123-127.\<close>

definition payload :: "'p libs \<Rightarrow> command list \<Rightarrow> 'p list" where
  "payload L cs =
     (case translator L of
        Some get_translated_payload \<Rightarrow> map get_translated_payload cs
      | None \<Rightarrow> map (to_dict L) cs)"

definition get_hash :: "'p libs \<Rightarrow> command list \<Rightarrow> byte list" where
  "get_hash L cs = digest_bytes (xxh3_64 L (json_dumps L (payload L (tree_commands cs))) 1)"

subsection \<open>sync_if_commands_updated (lines 131-151)\<close>

text \<open>
  Modelled from the spec: \<^verbatim>\<open>resolve_path_with_links\<close> of \<^verbatim>\<open>musicbot/utils.py\<close> is not
  among the sources. The spec has the persisted digest created with an empty value on
  the first run if it is absent.
\<close>

definition resolve_path_with_links :: "byte list option \<Rightarrow> byte list option" where
  "resolve_path_with_links f = (case f of None \<Rightarrow> Some [] | Some b \<Rightarrow> Some b)"

text \<open>\<^verbatim>\<open>fp.read()\<close> on the file opened with mode \<^verbatim>\<open>r+b\<close>.\<close>

definition read_file :: "byte list option \<Rightarrow> byte list" where
  "read_file f = (case f of None \<Rightarrow> [] | Some b \<Rightarrow> b)"

text \<open>
  \<^verbatim>\<open>fp.seek(0); fp.write(tree_hash)\<close>: the bytes are written over the start of the file,
  and what the file held beyond them stays.
\<close>

definition write_at_start :: "byte list \<Rightarrow> byte list \<Rightarrow> byte list" where
  "write_at_start new old = new @ drop (length new) old"

definition sync_if_commands_updated ::
  "'p libs \<Rightarrow> remote \<Rightarrow> state \<Rightarrow> (remote_error + unit) \<times> state" where
  "sync_if_commands_updated L rem st =
     (let tree_hash = get_hash L (get_all_commands st);
          st0 = st\<lparr>tree_hash_file := resolve_path_with_links (tree_hash_file st)\<rparr>;
          data = read_file (tree_hash_file st0)
      in if data \<noteq> tree_hash then
           (case sync rem st0 None of
              (Inl e, st1) \<Rightarrow> (Inl e, st1)
            | (Inr ret, st1) \<Rightarrow>
                (Inr (),
                 st1\<lparr>tree_hash_file := Some (write_at_start tree_hash data),
                     trace := trace st1 @ [WriteDigest tree_hash]\<rparr>))
         else (Inr (), st0))"

subsection \<open>The effects of one call\<close>

text \<open>What a call added to the trace, given the states before and after it.\<close>

definition new_effects :: "state \<Rightarrow> state \<Rightarrow> effect list" where
  "new_effects st st' = drop (length (trace st)) (trace st')"

text \<open>
  A call that did nothing but fetch the scopes \<open>fs\<close>, each of them a scope with no cache
  entry before the call: the trace grew by these fetches, every other cache entry and
  everything else in the state is as it was.
\<close>

abbreviation fetched_only :: "state \<Rightarrow> state \<Rightarrow> scope list \<Rightarrow> bool" where
  "fetched_only st st' fs \<equiv>
     trace st' = trace st @ map Fetch fs \<and>
     (\<forall>s \<in> set fs. application_commands st s = None) \<and>
     (\<forall>s. s \<notin> set fs \<longrightarrow> application_commands st' s = application_commands st s) \<and>
     tree_hash_file st' = tree_hash_file st \<and>
     fallback_to_global st' = fallback_to_global st \<and>
     walk_commands st' = walk_commands st \<and>
     get_all_commands st' = get_all_commands st"

subsection \<open>Examples\<close>

text \<open>
  A remote registry that answers a push and a global fetch with the record of
  \<^verbatim>\<open>play\<close>, and a fetch for a guild with the record of the group \<^verbatim>\<open>queue\<close>.
\<close>

definition example_remote :: remote where
  "example_remote h e =
     (case e of
        Push s \<Rightarrow> Inr [AppCommand 42 ''play'']
      | Fetch (Some g) \<Rightarrow> Inr [AppCommand 7 ''queue'']
      | Fetch None \<Rightarrow> Inr [AppCommand 42 ''play'']
      | WriteDigest b \<Rightarrow> Inl (HTTPException ''not a call''))"

definition failing_remote :: remote where
  "failing_remote h e = Inl (HTTPException ''429'')"

text \<open>The tree after \<^verbatim>\<open>setup_hook\<close> added one global command, before any remote call.\<close>

definition example_state :: state where
  "example_state =
     \<lparr>fallback_to_global = True,
      application_commands = Map.empty,
      walk_commands = (\<lambda>s. if s = None then [Command ''play'' ''play'' None] else []),
      get_all_commands = [Command ''play'' ''play'' None],
      tree_hash_file = None,
      trace = []\<rparr>"

text \<open>
  Stand-ins for the libraries, for the examples only: the payload of a command is its
  qualified name, the serialization is the bytes of the names one after the other, and
  the hash is the length of the data plus the seed. Nothing is proved of XXH3 from them.
\<close>

definition example_libs :: "string libs" where
  "example_libs =
     \<lparr>to_dict = qualified_name,
      translator = None,
      json_dumps = (\<lambda>ps. map (\<lambda>c. of_nat (of_char c)) (concat ps)),
      xxh3_64 = (\<lambda>data seed. of_nat (length data) + seed)\<rparr>"

section \<open>Properties\<close>

subsection \<open>Error dispatch\<close>

text \<open>
  C9. An error delivered to \<^verbatim>\<open>on_error\<close> that is a \<^verbatim>\<open>MusicBotError\<close> has its message
  sent to the user, as the initial response when none was sent yet and as a follow-up
  otherwise; every other error is handed to the handler of the superclass.
\<close>

theorem on_error_dispatch:
  "(\<forall>m. error = MusicBotError m \<longrightarrow>
        on_error False error = ResponseSendMessage m \<and> on_error True error = FollowupSend m) \<and>
   ((\<forall>m. error \<noteq> MusicBotError m) \<longrightarrow> on_error is_done error = SuperOnError error)"
  by (cases error) simp_all

theorem on_error_dispatch_witness:
  "on_error False (MusicBotError ''Not connected'') = ResponseSendMessage ''Not connected'' \<and>
   on_error True (MusicBotError ''Not connected'') = FollowupSend ''Not connected'' \<and>
   on_error True (OtherAppCommandError ''CheckFailure'') =
     SuperOnError (OtherAppCommandError ''CheckFailure'')"
  using on_error_dispatch [of "MusicBotError ''Not connected''" True]
    on_error_dispatch [of "OtherAppCommandError ''CheckFailure''" True]
  by simp

subsection \<open>The cache after a push or a fetch\<close>

text \<open>
  C7. A push or a fetch for a scope that the remote registry answers replaces the cache
  entry of that scope with exactly the records returned, whatever the entry held, and
  leaves the entry of every other scope as it was.
\<close>

theorem cache_replaced_wholesale:
  assumes "(op = Push s \<and> sync rem st s = (res, st')) \<or>
           (op = Fetch s \<and> fetch_commands rem st s = (res, st'))"
    and "rem (trace st) op = Inr ret"
  shows "res = Inr ret \<and> application_commands st' s = Some ret \<and>
         (\<forall>s'. s' \<noteq> s \<longrightarrow> application_commands st' s' = application_commands st s')"
  using assms by (auto simp: sync_def fetch_commands_def Let_def)

theorem cache_replaced_wholesale_witness:
  "example_remote [] (Push None) = Inr [AppCommand 42 ''play''] \<and>
   application_commands
     (snd (sync example_remote
       (example_state\<lparr>application_commands :=
          [None \<mapsto> [AppCommand 1 ''stop''], Some 5 \<mapsto> [AppCommand 7 ''queue'']]\<rparr>) None)) None =
     Some [AppCommand 42 ''play''] \<and>
   application_commands
     (snd (sync example_remote
       (example_state\<lparr>application_commands :=
          [None \<mapsto> [AppCommand 1 ''stop''], Some 5 \<mapsto> [AppCommand 7 ''queue'']]\<rparr>) None)) (Some 5) =
     Some [AppCommand 7 ''queue'']"
proof -
  let ?st = "example_state\<lparr>application_commands :=
          [None \<mapsto> [AppCommand 1 ''stop''], Some 5 \<mapsto> [AppCommand 7 ''queue'']]\<rparr>"
  let ?r = "sync example_remote ?st None"
  have h1: "(Push None = Push None \<and> ?r = (fst ?r, snd ?r)) \<or>
            (Push None = Fetch None \<and> fetch_commands example_remote ?st None = (fst ?r, snd ?r))"
    by simp
  have h2: "example_remote (trace ?st) (Push None) = Inr [AppCommand 42 ''play'']"
    by (simp add: example_remote_def)
  have h3: "example_remote [] (Push None) = Inr [AppCommand 42 ''play'']"
    by (simp add: example_remote_def)
  from cache_replaced_wholesale [OF h1 h2] h3 show ?thesis
    by (simp add: example_state_def)
qed

subsection \<open>The steps of the resolver\<close>

lemma str_int_42: "str_int 42 = ''42''"
  by code_simp

lemma str_int_7: "str_int 7 = ''7''"
  by code_simp

lemma fetched_only_trans:
  assumes "fetched_only st st1 fs1" and "fetched_only st1 st' fs2"
  shows "fetched_only st st' (fs1 @ fs2)"
proof -
  have "application_commands st s = None" if "s \<in> set fs2" for s
  proof (cases "s \<in> set fs1")
    case True
    with assms(1) show ?thesis by blast
  next
    case False
    with assms(1) have "application_commands st1 s = application_commands st s" by blast
    with assms(2) that show ?thesis by auto
  qed
  moreover have "application_commands st' s = application_commands st s"
    if "s \<notin> set (fs1 @ fs2)" for s
    using that assms by auto
  ultimately show ?thesis using assms by auto
qed

lemma cached_or_fetch_cases:
  assumes "cached_or_fetch rem st s = (res, st')"
  obtains (hit) rs where "application_commands st s = Some rs" "res = Inr rs" "st' = st"
  | (fetched) rs where "application_commands st s = None" "rem (trace st) (Fetch s) = Inr rs"
      "res = Inr rs"
      "st' = st\<lparr>trace := trace st @ [Fetch s],
                 application_commands := (application_commands st)(s \<mapsto> rs)\<rparr>"
  | (failed) e where "application_commands st s = None" "rem (trace st) (Fetch s) = Inl e"
      "res = Inl e" "st' = st\<lparr>trace := trace st @ [Fetch s]\<rparr>"
  using assms
  by (auto simp: cached_or_fetch_def fetch_commands_def Let_def split: option.splits sum.splits)

lemma cached_or_fetch_frame:
  assumes "cached_or_fetch rem st s = (res, st')"
  shows "fetched_only st st' (if application_commands st s = None then [s] else [])"
  using assms by (rule cached_or_fetch_cases) auto

lemma find_local_frame:
  assumes "find_local rem st c guild = (res, st')"
  shows "fetched_only st st'
           (if guild \<noteq> None \<and> application_commands st guild = None then [guild] else [])"
proof (cases guild)
  case None
  with assms show ?thesis by (simp add: find_local_def)
next
  case (Some g)
  obtain r1 s1 where c: "cached_or_fetch rem st (Some g) = (r1, s1)" by force
  with assms Some have "st' = s1" by (auto simp: find_local_def split: sum.splits)
  with cached_or_fetch_frame [OF c] Some show ?thesis by simp
qed

lemma find_global_frame:
  assumes "find_global rem st c guild found = (res, st')"
  shows "fetched_only st st'
           (if check_global st guild \<and> found = None \<and> application_commands st None = None
            then [None] else [])"
proof (cases "check_global st guild \<and> found = None")
  case False
  with assms show ?thesis by (auto simp add: find_global_def)
next
  case True
  obtain r1 s1 where c: "cached_or_fetch rem st None = (r1, s1)" by force
  with assms True have "st' = s1" by (auto simp: find_global_def split: sum.splits)
  with cached_or_fetch_frame [OF c] True show ?thesis by simp
qed

lemma find_mention_for_steps:
  assumes "find_mention_for rem st command guild = (res, st')"
  shows "(resolve_command st command guild = None \<and> res = Inr None \<and> st' = st) \<or>
     (\<exists>c r1 st1. resolve_command st command guild = Some c \<and>
        find_local rem st c guild = (r1, st1) \<and>
        ((\<exists>e. r1 = Inl e \<and> res = Inl e \<and> st' = st1) \<or>
         (\<exists>found r2. r1 = Inr found \<and> find_global rem st1 c guild found = (r2, st') \<and>
            res = map_sum id (map_option (mention c)) r2)))"
proof (cases "resolve_command st command guild")
  case None
  with assms show ?thesis by (simp add: find_mention_for_def)
next
  case (Some c)
  obtain r1 st1 where l: "find_local rem st c guild = (r1, st1)" by force
  show ?thesis
  proof (cases r1)
    case (Inl e)
    with assms Some l have "res = Inl e \<and> st' = st1" by (simp add: find_mention_for_def)
    with Some l Inl show ?thesis by blast
  next
    case (Inr found)
    obtain r2 st2 where g: "find_global rem st1 c guild found = (r2, st2)" by force
    with assms Some l Inr have "st' = st2 \<and> res = map_sum id (map_option (mention c)) r2"
      by (auto simp add: find_mention_for_def split: sum.splits option.splits)
    with Some l Inr g show ?thesis by blast
  qed
qed

lemma find_mention_for_frame:
  assumes "find_mention_for rem st command guild = (res, st')"
  shows "\<exists>fs. fetched_only st st' fs"
  using find_mention_for_steps [OF assms]
proof (elim disjE exE conjE)
  assume "st' = st"
  then have "fetched_only st st' []" by simp
  then show ?thesis by (rule exI)
next
  fix c r1 st1 e
  assume "find_local rem st c guild = (r1, st1)" "st' = st1"
  with find_local_frame [of rem st c guild r1 st1] show ?thesis by blast
next
  fix c r1 st1 found r2
  assume l: "find_local rem st c guild = (r1, st1)"
    and g: "find_global rem st1 c guild found = (r2, st')"
  from fetched_only_trans [OF find_local_frame [OF l] find_global_frame [OF g]]
  show ?thesis by (rule exI)
qed

subsection \<open>The resolver never pushes\<close>

text \<open>
  C8. Whatever the reference and the scope, \<^verbatim>\<open>find_mention_for\<close> leaves the digest file as
  it was and adds to the trace nothing but fetches, each for a scope that had no cache
  entry; no push and no write of the digest is among its effects, and a cache entry
  changes only for a scope it fetched.
\<close>

theorem find_mention_for_never_pushes:
  assumes "find_mention_for rem st command guild = (res, st')"
  shows "tree_hash_file st' = tree_hash_file st \<and>
         (\<exists>fs. trace st' = trace st @ map Fetch fs \<and>
               (\<forall>s \<in> set fs. application_commands st s = None) \<and>
               (\<forall>s. s \<notin> set fs \<longrightarrow> application_commands st' s = application_commands st s)) \<and>
         (\<forall>s. Push s \<notin> set (new_effects st st')) \<and>
         (\<forall>b. WriteDigest b \<notin> set (new_effects st st'))"
proof -
  from find_mention_for_frame [OF assms] obtain fs where f: "fetched_only st st' fs" ..
  then have "new_effects st st' = map Fetch fs" by (simp add: new_effects_def)
  then have "(\<forall>s. Push s \<notin> set (new_effects st st')) \<and>
         (\<forall>b. WriteDigest b \<notin> set (new_effects st st'))" by auto
  with f show ?thesis by blast
qed


theorem find_mention_for_never_pushes_witness:
  "find_mention_for example_remote example_state (ByName ''play'') (Some 5) =
     (Inr (Some ''</play:42>''),
      example_state\<lparr>application_commands :=
                      [Some 5 \<mapsto> [AppCommand 7 ''queue''], None \<mapsto> [AppCommand 42 ''play'']],
                    trace := [Fetch (Some 5), Fetch None]\<rparr>) \<and>
   tree_hash_file
     (example_state\<lparr>application_commands :=
                      [Some 5 \<mapsto> [AppCommand 7 ''queue''], None \<mapsto> [AppCommand 42 ''play'']],
                    trace := [Fetch (Some 5), Fetch None]\<rparr>) = tree_hash_file example_state \<and>
   Push None \<notin> set (new_effects example_state
     (example_state\<lparr>application_commands :=
                      [Some 5 \<mapsto> [AppCommand 7 ''queue''], None \<mapsto> [AppCommand 42 ''play'']],
                    trace := [Fetch (Some 5), Fetch None]\<rparr>))"
proof -
  let ?st' = "example_state\<lparr>application_commands :=
                      [Some 5 \<mapsto> [AppCommand 7 ''queue''], None \<mapsto> [AppCommand 42 ''play'']],
                    trace := [Fetch (Some 5), Fetch None]\<rparr>"
  have run: "find_mention_for example_remote example_state (ByName ''play'') (Some 5) =
     (Inr (Some ''</play:42>''), ?st')"
    by (simp add: find_mention_for_def resolve_command_def get_by_qualified_name_def
        check_global_def find_local_def find_global_def cached_or_fetch_def fetch_commands_def
        get_by_name_def lookup_name_def mention_def str_int_42
        example_remote_def example_state_def Let_def)
  from find_mention_for_never_pushes [OF run] run show ?thesis by blast
qed

subsection \<open>No scope and no fallback\<close>

text \<open>
  C10. When no scope is given and \<^verbatim>\<open>fallback_to_global\<close> is false, \<^verbatim>\<open>find_mention_for\<close>
  returns \<^verbatim>\<open>None\<close> for every reference and changes nothing, also when the command is
  declared globally and the global cache holds its record.
\<close>

theorem no_scope_no_fallback_absent:
  assumes "\<not> fallback_to_global st"
  shows "find_mention_for rem st command None = (Inr None, st)"
  using assms
  by (simp add: find_mention_for_def find_local_def find_global_def check_global_def
      split: option.splits)

theorem no_scope_no_fallback_absent_witness:
  "\<not> fallback_to_global
       (example_state\<lparr>fallback_to_global := False,
                     application_commands := [None \<mapsto> [AppCommand 42 ''play'']]\<rparr>) \<and>
   get_by_qualified_name (walk_commands example_state None) ''play'' =
     Some (Command ''play'' ''play'' None) \<and>
   find_mention_for example_remote
     (example_state\<lparr>fallback_to_global := False,
                   application_commands := [None \<mapsto> [AppCommand 42 ''play'']]\<rparr>)
     (ByHandle (Command ''play'' ''play'' None)) None =
     (Inr None,
      example_state\<lparr>fallback_to_global := False,
                    application_commands := [None \<mapsto> [AppCommand 42 ''play'']]\<rparr>)"
proof -
  let ?st = "example_state\<lparr>fallback_to_global := False,
                     application_commands := [None \<mapsto> [AppCommand 42 ''play'']]\<rparr>"
  have h: "\<not> fallback_to_global ?st" by simp
  have d: "get_by_qualified_name (walk_commands example_state None) ''play'' =
     Some (Command ''play'' ''play'' None)"
    by (simp add: get_by_qualified_name_def example_state_def)
  from no_scope_no_fallback_absent [OF h] h d show ?thesis by blast
qed

text \<open>
  C4. The lookup with no scope at a tree built with \<^verbatim>\<open>fallback_to_global=False\<close>: the
  command \<^verbatim>\<open>play\<close> is declared globally and the global cache holds its record, and the
  result is \<^verbatim>\<open>None\<close>, where the docstring of lines 73-75 has the global scope used. With
  the flag set the same call returns the mention.
\<close>

theorem no_scope_global_lookup_skipped:
  "find_mention_for example_remote
     (example_state\<lparr>fallback_to_global := False,
                   application_commands := [None \<mapsto> [AppCommand 42 ''play'']]\<rparr>)
     (ByName ''play'') None =
     (Inr None,
      example_state\<lparr>fallback_to_global := False,
                    application_commands := [None \<mapsto> [AppCommand 42 ''play'']]\<rparr>) \<and>
   find_mention_for example_remote
     (example_state\<lparr>application_commands := [None \<mapsto> [AppCommand 42 ''play'']]\<rparr>)
     (ByName ''play'') None =
     (Inr (Some ''</play:42>''),
      example_state\<lparr>application_commands := [None \<mapsto> [AppCommand 42 ''play'']]\<rparr>)"
  by (simp add: find_mention_for_def resolve_command_def get_by_qualified_name_def
        check_global_def find_local_def find_global_def cached_or_fetch_def
        get_by_name_def lookup_name_def mention_def str_int_42
        example_state_def)

subsection \<open>The mention of a subcommand\<close>

lemma find_local_run:
  assumes "find_local rem st c guild = (r1, st1)"
  shows "(guild = None \<and> r1 = Inr None \<and> st1 = st) \<or>
     (\<exists>rs. guild \<noteq> None \<and> application_commands st guild = Some rs \<and>
        r1 = Inr (get_by_name rs (lookup_name c)) \<and> st1 = st) \<or>
     (\<exists>rs. guild \<noteq> None \<and> application_commands st guild = None \<and>
        rem (trace st) (Fetch guild) = Inr rs \<and>
        r1 = Inr (get_by_name rs (lookup_name c)) \<and>
        st1 = st\<lparr>trace := trace st @ [Fetch guild],
                 application_commands := (application_commands st)(guild \<mapsto> rs)\<rparr>) \<or>
     (\<exists>e. guild \<noteq> None \<and> application_commands st guild = None \<and>
        rem (trace st) (Fetch guild) = Inl e \<and> r1 = Inl e \<and>
        st1 = st\<lparr>trace := trace st @ [Fetch guild]\<rparr>)"
proof (cases guild)
  case None
  with assms show ?thesis by (simp add: find_local_def)
next
  case (Some g)
  obtain r s where c: "cached_or_fetch rem st (Some g) = (r, s)" by force
  from c show ?thesis
  proof (cases rule: cached_or_fetch_cases)
    case (hit rs)
    with assms Some c show ?thesis by (simp add: find_local_def)
  next
    case (fetched rs)
    with assms Some c show ?thesis by (simp add: find_local_def)
  next
    case (failed e)
    with assms Some c show ?thesis by (simp add: find_local_def)
  qed
qed

lemma find_global_run:
  assumes "find_global rem st c guild found = (r2, st2)"
  shows "((\<not> check_global st guild \<or> found \<noteq> None) \<and> r2 = Inr found \<and> st2 = st) \<or>
     (\<exists>gs. check_global st guild \<and> found = None \<and> application_commands st None = Some gs \<and>
        r2 = Inr (get_by_name gs (lookup_name c)) \<and> st2 = st) \<or>
     (\<exists>gs. check_global st guild \<and> found = None \<and> application_commands st None = None \<and>
        rem (trace st) (Fetch None) = Inr gs \<and>
        r2 = Inr (get_by_name gs (lookup_name c)) \<and>
        st2 = st\<lparr>trace := trace st @ [Fetch None],
                 application_commands := (application_commands st)(None \<mapsto> gs)\<rparr>) \<or>
     (\<exists>e. check_global st guild \<and> found = None \<and> application_commands st None = None \<and>
        rem (trace st) (Fetch None) = Inl e \<and> r2 = Inl e \<and>
        st2 = st\<lparr>trace := trace st @ [Fetch None]\<rparr>)"
proof (cases "check_global st guild \<and> found = None")
  case False
  with assms show ?thesis by (auto simp: find_global_def)
next
  case True
  obtain r s where c: "cached_or_fetch rem st None = (r, s)" by force
  from c show ?thesis
  proof (cases rule: cached_or_fetch_cases)
    case (hit rs)
    with assms True c show ?thesis by (simp add: find_global_def)
  next
    case (fetched rs)
    with assms True c show ?thesis by (simp add: find_global_def)
  next
    case (failed e)
    with assms True c show ?thesis by (simp add: find_global_def)
  qed
qed

lemma find_mention_for_resolved:
  assumes "find_mention_for rem st command guild = (res, st')"
    and "resolve_command st command guild = Some c"
  shows "\<exists>r1 st1. find_local rem st c guild = (r1, st1) \<and>
        ((\<exists>e. r1 = Inl e \<and> res = Inl e \<and> st' = st1) \<or>
         (\<exists>found r2. r1 = Inr found \<and> find_global rem st1 c guild found = (r2, st') \<and>
            res = map_sum id (map_option (mention c)) r2))"
  using find_mention_for_steps [OF assms(1)] assms(2) by auto

lemma check_global_local:
  assumes "find_local rem st c guild = (r1, st1)"
  shows "check_global st1 guild = (fallback_to_global st \<or> guild \<noteq> None)"
  using find_local_run [OF assms] by (auto simp: check_global_def)

lemma mention_value:
  assumes "find_mention_for rem st command guild = (Inr v, st')"
    and "resolve_command st command guild = Some c"
  shows "case guild of
           Some g \<Rightarrow>
             (\<exists>rs. application_commands st' (Some g) = Some rs \<and>
                (case get_by_name rs (lookup_name c) of
                   Some r \<Rightarrow> v = Some (mention c r)
                 | None \<Rightarrow>
                     (\<exists>gs. application_commands st' None = Some gs \<and>
                        v = map_option (mention c) (get_by_name gs (lookup_name c)))))
         | None \<Rightarrow>
             if fallback_to_global st
             then (\<exists>gs. application_commands st' None = Some gs \<and>
                     v = map_option (mention c) (get_by_name gs (lookup_name c)))
             else v = None"
proof -
  from find_mention_for_resolved [OF assms] obtain r1 st1 found r2 where
    l: "find_local rem st c guild = (r1, st1)" and r1: "r1 = Inr found"
    and g: "find_global rem st1 c guild found = (r2, st')"
    and v: "Inr v = map_sum id (map_option (mention c)) r2"
    by auto
  from v obtain w where r2: "r2 = Inr w" and vw: "v = map_option (mention c) w"
    by (cases r2) auto
  note cg = check_global_local [OF l]
  show ?thesis
  proof (cases guild)
    case None
    with find_local_run [OF l] r1 have "found = None" "st1 = st" by auto
    with find_global_run [OF g] r2 vw None cg show ?thesis by auto
  next
    case (Some gid)
    with find_local_run [OF l] r1 obtain rs where
      rs: "application_commands st1 (Some gid) = Some rs"
      and f: "found = get_by_name rs (lookup_name c)"
      by auto
    from find_global_run [OF g] rs have rs': "application_commands st' (Some gid) = Some rs"
      by auto
    show ?thesis
    proof (cases found)
      case None
      with find_global_run [OF g] r2 vw Some cg f rs' show ?thesis by auto
    next
      case (Some r)
      with find_global_run [OF g] r2 have "w = Some r" by auto
      with vw Some f rs' \<open>guild = Some gid\<close> show ?thesis by auto
    qed
  qed
qed

lemma mention_entries:
  assumes "find_mention_for rem st command guild = (res, st')"
    and "resolve_command st command guild = Some c"
  shows "(\<forall>s rs. application_commands st s = Some rs \<longrightarrow> application_commands st' s = Some rs) \<and>
     (\<forall>rs. guild \<noteq> None \<and> application_commands st guild = None \<and>
        application_commands st' guild = Some rs \<longrightarrow> rem (trace st) (Fetch guild) = Inr rs) \<and>
     (\<forall>gs. application_commands st None = None \<and> application_commands st' None = Some gs \<longrightarrow>
        rem (trace st @
             (if guild \<noteq> None \<and> application_commands st guild = None then [Fetch guild] else []))
          (Fetch None) = Inr gs) \<and>
     (\<forall>e. res = Inl e \<longrightarrow>
        (guild \<noteq> None \<and> application_commands st guild = None \<and>
         rem (trace st) (Fetch guild) = Inl e) \<or>
        (application_commands st None = None \<and>
         rem (trace st @
              (if guild \<noteq> None \<and> application_commands st guild = None then [Fetch guild] else []))
           (Fetch None) = Inl e))"
proof -
  from find_mention_for_resolved [OF assms] obtain r1 st1 where
    l: "find_local rem st c guild = (r1, st1)" and
    d: "(\<exists>e. r1 = Inl e \<and> res = Inl e \<and> st' = st1) \<or>
         (\<exists>found r2. r1 = Inr found \<and> find_global rem st1 c guild found = (r2, st') \<and>
            res = map_sum id (map_option (mention c)) r2)"
    by auto
  from d show ?thesis
  proof (elim disjE exE conjE)
    fix e
    assume "r1 = Inl e" "res = Inl e" "st' = st1"
    with find_local_run [OF l] show ?thesis by auto
  next
    fix found r2
    assume r1: "r1 = Inr found" and g: "find_global rem st1 c guild found = (r2, st')"
      and res: "res = map_sum id (map_option (mention c)) r2"
    from find_local_run [OF l] r1 consider
      (a) "guild = None" "st1 = st"
      | (b) rs where "guild \<noteq> None" "application_commands st guild = Some rs" "st1 = st"
      | (c) rs where "guild \<noteq> None" "application_commands st guild = None"
          "rem (trace st) (Fetch guild) = Inr rs"
          "st1 = st\<lparr>trace := trace st @ [Fetch guild],
                 application_commands := (application_commands st)(guild \<mapsto> rs)\<rparr>"
      by auto
    then show ?thesis
    proof cases
      case a
      with find_global_run [OF g] res show ?thesis by (cases r2) auto
    next
      case b
      with find_global_run [OF g] res show ?thesis by (cases r2) auto
    next
      case c
      with find_global_run [OF g] res show ?thesis by (cases r2) auto
    qed
  qed
qed

text \<open>
  C5. For a reference that resolves to the command \<open>c\<close>, the result of
  \<^verbatim>\<open>find_mention_for\<close> is fixed by the cached records. The records are searched by the
  name of the root parent of \<open>c\<close>, or by the name of \<open>c\<close> itself when it has no parent:
  first the records of the scope, when a scope is given, then the records of the global
  scope, when the scope's have no match or no scope is given and the flag is set. The
  first match \<open>r\<close> gives the mention \<^verbatim>\<open></qualified_name:id>\<close>, with the qualified name
  of \<open>c\<close> and the identifier of \<open>r\<close>; no match gives \<^verbatim>\<open>None\<close>. An entry that was cached
  is the one searched, an entry that was not is the answer of the remote registry to the
  fetch, and the call raises only when such a fetch does.
\<close>

theorem subcommand_mention:
  assumes "find_mention_for rem st command guild = (res, st')"
    and "resolve_command st command guild = Some c"
  shows "(\<forall>v. res = Inr v \<longrightarrow>
       (case guild of
          Some g \<Rightarrow>
            (\<exists>rs. application_commands st' (Some g) = Some rs \<and>
               (case find (\<lambda>r. app_command_name r =
                             (case root_parent c of Some p \<Rightarrow> name p | None \<Rightarrow> name c)) rs of
                  Some r \<Rightarrow>
                    v = Some (''</'' @ qualified_name c @ '':'' @ str_int (app_command_id r) @ ''>'')
                | None \<Rightarrow>
                    (\<exists>gs. application_commands st' None = Some gs \<and>
                       v = map_option
                         (\<lambda>r. ''</'' @ qualified_name c @ '':'' @ str_int (app_command_id r) @ ''>'')
                         (find (\<lambda>r. app_command_name r =
                             (case root_parent c of Some p \<Rightarrow> name p | None \<Rightarrow> name c)) gs))))
        | None \<Rightarrow>
            if fallback_to_global st
            then (\<exists>gs. application_commands st' None = Some gs \<and>
                    v = map_option
                      (\<lambda>r. ''</'' @ qualified_name c @ '':'' @ str_int (app_command_id r) @ ''>'')
                      (find (\<lambda>r. app_command_name r =
                          (case root_parent c of Some p \<Rightarrow> name p | None \<Rightarrow> name c)) gs))
            else v = None)) \<and>
     (\<forall>s rs. application_commands st s = Some rs \<longrightarrow> application_commands st' s = Some rs) \<and>
     (\<forall>rs. guild \<noteq> None \<and> application_commands st guild = None \<and>
        application_commands st' guild = Some rs \<longrightarrow> rem (trace st) (Fetch guild) = Inr rs) \<and>
     (\<forall>gs. application_commands st None = None \<and> application_commands st' None = Some gs \<longrightarrow>
        rem (trace st @
             (if guild \<noteq> None \<and> application_commands st guild = None then [Fetch guild] else []))
          (Fetch None) = Inr gs) \<and>
     (\<forall>e. res = Inl e \<longrightarrow>
        (guild \<noteq> None \<and> application_commands st guild = None \<and>
         rem (trace st) (Fetch guild) = Inl e) \<or>
        (application_commands st None = None \<and>
         rem (trace st @
              (if guild \<noteq> None \<and> application_commands st guild = None then [Fetch guild] else []))
           (Fetch None) = Inl e))"
proof (rule conjI)
  show "\<forall>v. res = Inr v \<longrightarrow>
       (case guild of
          Some g \<Rightarrow>
            (\<exists>rs. application_commands st' (Some g) = Some rs \<and>
               (case find (\<lambda>r. app_command_name r =
                             (case root_parent c of Some p \<Rightarrow> name p | None \<Rightarrow> name c)) rs of
                  Some r \<Rightarrow>
                    v = Some (''</'' @ qualified_name c @ '':'' @ str_int (app_command_id r) @ ''>'')
                | None \<Rightarrow>
                    (\<exists>gs. application_commands st' None = Some gs \<and>
                       v = map_option
                         (\<lambda>r. ''</'' @ qualified_name c @ '':'' @ str_int (app_command_id r) @ ''>'')
                         (find (\<lambda>r. app_command_name r =
                             (case root_parent c of Some p \<Rightarrow> name p | None \<Rightarrow> name c)) gs))))
        | None \<Rightarrow>
            if fallback_to_global st
            then (\<exists>gs. application_commands st' None = Some gs \<and>
                    v = map_option
                      (\<lambda>r. ''</'' @ qualified_name c @ '':'' @ str_int (app_command_id r) @ ''>'')
                      (find (\<lambda>r. app_command_name r =
                          (case root_parent c of Some p \<Rightarrow> name p | None \<Rightarrow> name c)) gs))
            else v = None)"
  proof (intro allI impI)
    fix v
    assume "res = Inr v"
    with assms(1) have "find_mention_for rem st command guild = (Inr v, st')" by simp
    from mention_value [OF this assms(2)] show "case guild of
          Some g \<Rightarrow>
            (\<exists>rs. application_commands st' (Some g) = Some rs \<and>
               (case find (\<lambda>r. app_command_name r =
                             (case root_parent c of Some p \<Rightarrow> name p | None \<Rightarrow> name c)) rs of
                  Some r \<Rightarrow>
                    v = Some (''</'' @ qualified_name c @ '':'' @ str_int (app_command_id r) @ ''>'')
                | None \<Rightarrow>
                    (\<exists>gs. application_commands st' None = Some gs \<and>
                       v = map_option
                         (\<lambda>r. ''</'' @ qualified_name c @ '':'' @ str_int (app_command_id r) @ ''>'')
                         (find (\<lambda>r. app_command_name r =
                             (case root_parent c of Some p \<Rightarrow> name p | None \<Rightarrow> name c)) gs))))
        | None \<Rightarrow>
            if fallback_to_global st
            then (\<exists>gs. application_commands st' None = Some gs \<and>
                    v = map_option
                      (\<lambda>r. ''</'' @ qualified_name c @ '':'' @ str_int (app_command_id r) @ ''>'')
                      (find (\<lambda>r. app_command_name r =
                          (case root_parent c of Some p \<Rightarrow> name p | None \<Rightarrow> name c)) gs))
            else v = None"
      unfolding get_by_name_def lookup_name_def mention_def .
  qed
next
  from mention_entries [OF assms]
  show "(\<forall>s rs. application_commands st s = Some rs \<longrightarrow> application_commands st' s = Some rs) \<and>
     (\<forall>rs. guild \<noteq> None \<and> application_commands st guild = None \<and>
        application_commands st' guild = Some rs \<longrightarrow> rem (trace st) (Fetch guild) = Inr rs) \<and>
     (\<forall>gs. application_commands st None = None \<and> application_commands st' None = Some gs \<longrightarrow>
        rem (trace st @
             (if guild \<noteq> None \<and> application_commands st guild = None then [Fetch guild] else []))
          (Fetch None) = Inr gs) \<and>
     (\<forall>e. res = Inl e \<longrightarrow>
        (guild \<noteq> None \<and> application_commands st guild = None \<and>
         rem (trace st) (Fetch guild) = Inl e) \<or>
        (application_commands st None = None \<and>
         rem (trace st @
              (if guild \<noteq> None \<and> application_commands st guild = None then [Fetch guild] else []))
           (Fetch None) = Inl e))" .
qed

theorem subcommand_mention_witness:
  "resolve_command
     (example_state\<lparr>application_commands := [None \<mapsto> [AppCommand 42 ''play'']]\<rparr>)
     (ByName ''play'') None = Some (Command ''play'' ''play'' None) \<and>
   fst (find_mention_for example_remote
     (example_state\<lparr>application_commands := [None \<mapsto> [AppCommand 42 ''play'']]\<rparr>)
     (ByName ''play'') None) = Inr (Some ''</play:42>'') \<and>
   resolve_command example_state
     (ByHandle (Command ''show'' ''queue show'' (Some (Command ''queue'' ''queue'' None))))
     (Some 5) = Some (Command ''show'' ''queue show'' (Some (Command ''queue'' ''queue'' None))) \<and>
   example_remote (trace example_state) (Fetch (Some 5)) = Inr [AppCommand 7 ''queue''] \<and>
   fst (find_mention_for example_remote example_state
     (ByHandle (Command ''show'' ''queue show'' (Some (Command ''queue'' ''queue'' None))))
     (Some 5)) = Inr (Some ''</queue show:7>'')"
proof -
  let ?st = "example_state\<lparr>application_commands := [None \<mapsto> [AppCommand 42 ''play'']]\<rparr>"
  let ?play = "Command ''play'' ''play'' None"
  let ?child = "Command ''show'' ''queue show'' (Some (Command ''queue'' ''queue'' None))"
  let ?r = "find_mention_for example_remote ?st (ByName ''play'') None"
  let ?q = "find_mention_for example_remote example_state (ByHandle ?child) (Some 5)"
  have r1: "resolve_command ?st (ByName ''play'') None = Some ?play"
    by (simp add: resolve_command_def get_by_qualified_name_def example_state_def)
  have r2: "resolve_command example_state (ByHandle ?child) (Some 5) = Some ?child"
    by (simp add: resolve_command_def)
  have a: "example_remote (trace example_state) (Fetch (Some 5)) = Inr [AppCommand 7 ''queue'']"
    by (simp add: example_remote_def)
  have w: "application_commands ?st None = Some [AppCommand 42 ''play'']" by simp
  have f: "fallback_to_global ?st" by (simp add: example_state_def)
  have cold: "application_commands example_state (Some 5) = None"
    by (simp add: example_state_def)
  have hr: "?r = (fst ?r, snd ?r)" by simp
  have hq: "?q = (fst ?q, snd ?q)" by simp
  note t1 = subcommand_mention [OF hr r1]
  note t2 = subcommand_mention [OF hq r2]
  from t1 w have e1: "application_commands (snd ?r) None = Some [AppCommand 42 ''play'']"
    by blast
  from t1 w have "\<And>e. fst ?r \<noteq> Inl e" by auto
  then obtain v where v: "fst ?r = Inr v" by (cases "fst ?r") auto
  with t1 f e1 have "v = Some ''</play:42>''" by (auto simp: str_int_42)
  with v have p1: "fst ?r = Inr (Some ''</play:42>'')" by simp
  have b: "\<And>h. example_remote h (Fetch None) = Inr [AppCommand 42 ''play'']"
    by (simp add: example_remote_def)
  from t2 a b cold have "\<And>e. fst ?q \<noteq> Inl e" by auto
  then obtain u where u: "fst ?q = Inr u" by (cases "fst ?q") auto
  with t2 obtain rs where rs: "application_commands (snd ?q) (Some 5) = Some rs"
    and c: "case find (\<lambda>r. app_command_name r =
                 (case root_parent ?child of Some p \<Rightarrow> name p | None \<Rightarrow> name ?child)) rs of
              Some r \<Rightarrow>
                u = Some (''</'' @ qualified_name ?child @ '':'' @ str_int (app_command_id r) @ ''>'')
            | None \<Rightarrow>
                (\<exists>gs. application_commands (snd ?q) None = Some gs \<and>
                   u = map_option
                     (\<lambda>r. ''</'' @ qualified_name ?child @ '':'' @ str_int (app_command_id r) @ ''>'')
                     (find (\<lambda>r. app_command_name r =
                         (case root_parent ?child of Some p \<Rightarrow> name p | None \<Rightarrow> name ?child)) gs))"
    by auto
  from t2 rs cold a have "rs = [AppCommand 7 ''queue'']" by auto
  with c have "u = Some ''</queue show:7>''" by (simp add: str_int_7)
  with u have p2: "fst ?q = Inr (Some ''</queue show:7>'')" by simp
  from r1 p1 r2 a p2 show ?thesis by blast
qed

subsection \<open>Lazy population of the cache\<close>

lemma find_local_cold:
  assumes "find_local rem st c (Some g) = (r1, st1)"
    and "application_commands st (Some g) = None"
    and "rem (trace st) (Fetch (Some g)) = Inr rs"
  shows "application_commands st1 (Some g) = Some rs \<and> (\<exists>found. r1 = Inr found)"
  using assms
  by (auto simp: find_local_def cached_or_fetch_def fetch_commands_def Let_def)

lemma find_mention_for_fetches:
  assumes "find_mention_for rem st command guild = (res, st')"
    and "resolve_command st command guild = Some c"
  shows "\<exists>fs2. set fs2 \<subseteq> {None} \<and>
           fetched_only st st'
             ((if guild \<noteq> None \<and> application_commands st guild = None then [guild] else [])
              @ fs2)"
  using find_mention_for_steps [OF assms(1)]
proof (elim disjE exE conjE)
  assume "resolve_command st command guild = None"
  with assms(2) show ?thesis by simp
next
  fix c r1 st1 e
  assume "find_local rem st c guild = (r1, st1)" "st' = st1"
  with find_local_frame [of rem st c guild r1 st1]
  have "set [] \<subseteq> {None :: scope} \<and> fetched_only st st'
             ((if guild \<noteq> None \<and> application_commands st guild = None then [guild] else [])
              @ [])" by simp
  then show ?thesis by (rule exI)
next
  fix c r1 st1 found r2
  assume l: "find_local rem st c guild = (r1, st1)"
    and g: "find_global rem st1 c guild found = (r2, st')"
  let ?fs2 = "if check_global st1 guild \<and> found = None \<and> application_commands st1 None = None
            then [None :: scope] else []"
  have a: "set ?fs2 \<subseteq> {None :: scope}" by auto
  note b = fetched_only_trans [OF find_local_frame [OF l] find_global_frame [OF g]]
  from a b have "set ?fs2 \<subseteq> {None} \<and>
           fetched_only st st'
             ((if guild \<noteq> None \<and> application_commands st guild = None then [guild] else [])
              @ ?fs2)"
    by (rule conjI)
  then show ?thesis by (rule exI)
qed

text \<open>
  C6, amended. A call of \<^verbatim>\<open>find_mention_for\<close> whose reference resolves to a declared
  command, with a scope that has no cache entry, makes exactly one fetch for that scope.
  When the remote registry answers that fetch, the entry holds the answer, and any later
  call with the same scope from the resulting state makes no fetch for that scope.
\<close>

theorem lazy_cache_population:
  assumes "resolve_command st command (Some g) = Some c"
    and "application_commands st (Some g) = None"
    and "find_mention_for rem st command (Some g) = (res, st')"
  shows "count_list (new_effects st st') (Fetch (Some g)) = 1 \<and>
         (\<forall>rs. rem (trace st) (Fetch (Some g)) = Inr rs \<longrightarrow>
            application_commands st' (Some g) = Some rs \<and>
            (\<forall>rem' command' res' st''.
               find_mention_for rem' st' command' (Some g) = (res', st'') \<longrightarrow>
                 count_list (new_effects st' st'') (Fetch (Some g)) = 0))"
proof (intro conjI allI impI)
  from find_mention_for_fetches [OF assms(3) assms(1)] assms(2)
  obtain fs2 where fs2: "set fs2 \<subseteq> {None}" and f: "fetched_only st st' (Some g # fs2)"
    by auto
  from f have "new_effects st st' = Fetch (Some g) # map Fetch fs2"
    by (simp add: new_effects_def)
  moreover from fs2 have "Fetch (Some g) \<notin> set (map Fetch fs2)" by auto
  ultimately show "count_list (new_effects st st') (Fetch (Some g)) = 1"
    by (simp add: count_list_0_iff)
next
  fix rs
  assume ans: "rem (trace st) (Fetch (Some g)) = Inr rs"
  show pop: "application_commands st' (Some g) = Some rs"
    using find_mention_for_steps [OF assms(3)]
  proof (elim disjE exE conjE)
    assume "resolve_command st command (Some g) = None"
    with assms(1) show ?thesis by simp
  next
    fix c r1 st1 e
    assume l: "find_local rem st c (Some g) = (r1, st1)" and e: "r1 = Inl e"
    from find_local_cold [OF l assms(2) ans] e show ?thesis by auto
  next
    fix c r1 st1 found r2
    assume l: "find_local rem st c (Some g) = (r1, st1)"
      and gl: "find_global rem st1 c (Some g) found = (r2, st')"
    from find_global_frame [OF gl]
    have "application_commands st' (Some g) = application_commands st1 (Some g)" by simp
    with find_local_cold [OF l assms(2) ans] show ?thesis by simp
  qed
  fix rem' command' res' st''
  assume "find_mention_for rem' st' command' (Some g) = (res', st'')"
  from find_mention_for_frame [OF this] obtain fs where f: "fetched_only st' st'' fs" ..
  with pop have "Some g \<notin> set fs" by auto
  moreover from f have "new_effects st' st'' = map Fetch fs" by (simp add: new_effects_def)
  ultimately show "count_list (new_effects st' st'') (Fetch (Some g)) = 0"
    by (auto simp: count_list_0_iff)
qed

theorem lazy_cache_population_witness:
  "resolve_command example_state (ByName ''play'') (Some 5) =
     Some (Command ''play'' ''play'' None) \<and>
   application_commands example_state (Some 5) = None \<and>
   example_remote (trace example_state) (Fetch (Some 5)) = Inr [AppCommand 7 ''queue''] \<and>
   count_list
     (new_effects example_state
        (snd (find_mention_for example_remote example_state (ByName ''play'') (Some 5))))
     (Fetch (Some 5)) = 1 \<and>
   application_commands
     (snd (find_mention_for example_remote example_state (ByName ''play'') (Some 5)))
     (Some 5) = Some [AppCommand 7 ''queue''] \<and>
   count_list
     (new_effects
        (snd (find_mention_for example_remote example_state (ByName ''play'') (Some 5)))
        (snd (find_mention_for example_remote
           (snd (find_mention_for example_remote example_state (ByName ''play'') (Some 5)))
           (ByName ''play'') (Some 5))))
     (Fetch (Some 5)) = 0"
proof -
  let ?r = "find_mention_for example_remote example_state (ByName ''play'') (Some 5)"
  let ?r2 = "find_mention_for example_remote (snd ?r) (ByName ''play'') (Some 5)"
  have h1: "resolve_command example_state (ByName ''play'') (Some 5) =
     Some (Command ''play'' ''play'' None)"
    by (simp add: resolve_command_def get_by_qualified_name_def check_global_def
        example_state_def)
  have h2: "application_commands example_state (Some 5) = None"
    by (simp add: example_state_def)
  have h3: "?r = (fst ?r, snd ?r)" by simp
  have h4: "example_remote (trace example_state) (Fetch (Some 5)) = Inr [AppCommand 7 ''queue'']"
    by (simp add: example_remote_def)
  have h5: "?r2 = (fst ?r2, snd ?r2)" by simp
  from lazy_cache_population [OF h1 h2 h3] h1 h2 h4 h5 show ?thesis by blast
qed

text \<open>
  C6 as stated fails for a reference that names no declared command: the call returns at
  line 92, before the cache is read, so a scope with no entry is not fetched and stays
  without an entry.
\<close>

theorem lazy_cache_population_counterexample:
  "application_commands example_state (Some 5) = None \<and>
   find_mention_for example_remote example_state (ByName ''skip'') (Some 5) =
     (Inr None, example_state) \<and>
   count_list
     (new_effects example_state
        (snd (find_mention_for example_remote example_state (ByName ''skip'') (Some 5))))
     (Fetch (Some 5)) = 0 \<and>
   application_commands
     (snd (find_mention_for example_remote example_state (ByName ''skip'') (Some 5)))
     (Some 5) = None"
  by (simp add: find_mention_for_def resolve_command_def get_by_qualified_name_def
      check_global_def example_state_def new_effects_def)

subsection \<open>The digest\<close>

lemma length_digest_bytes: "length (digest_bytes w) = 8"
  by (simp add: digest_bytes_def)

lemma length_get_hash: "length (get_hash L cs) = 8"
  by (simp add: get_hash_def length_digest_bytes)

lemma digest_bytes_bit:
  assumes "digest_bytes w = digest_bytes w'" and "i < 8" and "j < 8"
  shows "bit w (8 * i + j) = bit w' (8 * i + j)"
proof -
  from assms(1) have "\<forall>k \<in> {0, 1, 2, 3, 4, 5, 6, 7 :: nat}.
      (ucast (drop_bit (8 * k) w) :: byte) = ucast (drop_bit (8 * k) w')"
    by (simp add: digest_bytes_def)
  moreover from assms(2) have "i \<in> {0, 1, 2, 3, 4, 5, 6, 7 :: nat}" by auto
  ultimately have "(ucast (drop_bit (8 * i) w) :: byte) = ucast (drop_bit (8 * i) w')"
    by blast
  then have "bit (ucast (drop_bit (8 * i) w) :: byte) j = bit (ucast (drop_bit (8 * i) w') :: byte) j"
    by simp
  with assms(3) show ?thesis
    by (simp add: bit_ucast_iff bit_drop_bit_eq)
qed

lemma inj_digest_bytes:
  assumes "digest_bytes w = digest_bytes w'"
  shows "w = w'"
proof (rule bit_word_eqI)
  fix n
  assume "n < LENGTH(64)"
  then have "n div 8 < 8" "n mod 8 < 8" by auto
  from digest_bytes_bit [OF assms this] show "bit w n = bit w' n" by simp
qed

lemma tree_commands_perm:
  assumes "mset cs = mset cs'" and "distinct (map qualified_name cs)"
  shows "tree_commands cs = tree_commands cs'"
  unfolding tree_commands_def
proof (rule sort_key_inj_key_eq)
  from assms(1) show "mset cs = mset (sort_key qualified_name cs')" by simp
  from assms(2) show "inj_on qualified_name (set cs)" by (simp add: distinct_map)
  show "sorted (map qualified_name (sort_key qualified_name cs'))" by simp
qed

lemma payload_eq_map:
  "payload L cs = map (\<lambda>c. case translator L of Some t \<Rightarrow> t c | None \<Rightarrow> to_dict L c) cs"
  by (simp add: payload_def split: option.splits)

lemma payload_cong:
  assumes "\<forall>c \<in> set cs. payload L' [c] = payload L [c]"
  shows "payload L' cs = payload L cs"
  using assms by (simp add: payload_eq_map)

lemma payload_inj:
  assumes "inj_on (\<lambda>c. payload L [c]) (set xs \<union> set ys)"
    and "payload L xs = payload L ys"
  shows "xs = ys"
proof -
  let ?f = "\<lambda>c. case translator L of Some t \<Rightarrow> t c | None \<Rightarrow> to_dict L c"
  from assms(1) have "inj_on ?f (set xs \<union> set ys)"
    by (simp add: inj_on_def payload_eq_map)
  moreover from assms(2) have "map ?f xs = map ?f ys"
    by (simp add: payload_eq_map)
  ultimately show ?thesis by (simp add: inj_on_map_eq_map)
qed

lemma payload_differs_on_change:
  assumes "inj_on (\<lambda>c. payload L [c]) (set cs \<union> set cs')" and "mset cs' \<noteq> mset cs"
  shows "payload L (tree_commands cs') \<noteq> payload L (tree_commands cs)"
proof
  assume e: "payload L (tree_commands cs') = payload L (tree_commands cs)"
  from assms(1)
  have "inj_on (\<lambda>c. payload L [c]) (set (tree_commands cs') \<union> set (tree_commands cs))"
    by (simp add: tree_commands_def Un_commute)
  from payload_inj [OF this e] have "mset (tree_commands cs') = mset (tree_commands cs)"
    by simp
  with assms(2) show False by (simp add: tree_commands_def)
qed

lemma payload_differs_on_translation:
  assumes "c \<in> set cs" and "payload L' [c] \<noteq> payload L [c]"
  shows "payload L' (tree_commands cs) \<noteq> payload L (tree_commands cs)"
proof
  assume "payload L' (tree_commands cs) = payload L (tree_commands cs)"
  moreover from assms(1) have "c \<in> set (tree_commands cs)" by (simp add: tree_commands_def)
  ultimately have "payload L' [c] = payload L [c]" by (simp add: payload_eq_map)
  with assms(2) show False by simp
qed

lemma digest_differs:
  assumes "json_dumps L' = json_dumps L" and "xxh3_64 L' = xxh3_64 L"
    and "p' \<noteq> p"
    and "inj_on (json_dumps L) {p', p}"
    and "inj_on (\<lambda>d. xxh3_64 L d 1) {json_dumps L p', json_dumps L p}"
  shows "digest_bytes (xxh3_64 L' (json_dumps L' p') 1) \<noteq>
         digest_bytes (xxh3_64 L (json_dumps L p) 1)"
proof
  assume "digest_bytes (xxh3_64 L' (json_dumps L' p') 1) =
          digest_bytes (xxh3_64 L (json_dumps L p) 1)"
  then have "xxh3_64 L' (json_dumps L' p') 1 = xxh3_64 L (json_dumps L p) 1"
    by (rule inj_digest_bytes)
  then have h: "xxh3_64 L (json_dumps L p') 1 = xxh3_64 L (json_dumps L p) 1"
    unfolding assms(1) assms(2) .
  have j: "json_dumps L p' = json_dumps L p"
    by (rule inj_onD [OF assms(5)]) (rule h, blast, blast)
  have "p' = p"
    by (rule inj_onD [OF assms(4)]) (rule j, blast, blast)
  with assms(3) show False ..
qed

text \<open>
  C3, amended. Two runs of \<^verbatim>\<open>get_hash\<close>, one with the libraries \<open>L\<close> on the commands
  \<open>cs\<close> and one with \<open>L'\<close> on \<open>cs'\<close>, where \<open>L'\<close> has the serializer and the hash of \<open>L\<close>
  and may differ in the translator. The commands are those that
  \<^verbatim>\<open>_get_all_commands(guild=None)\<close> returns.
  \<^item> The digest has eight bytes.
  \<^item> When every command has the same payload in both runs and \<open>cs'\<close> holds the commands
    of \<open>cs\<close>, declared in whatever order, with distinct qualified names, the digests are
    equal.
  \<^item> When the payloads are as in the first run and tell the commands apart, and \<open>cs'\<close>
    is not \<open>cs\<close> up to order (a command was renamed), the digests differ, provided the
    serializer maps the two payload lists to different bytes and XXH3 with seed 1 does
    not collide on these bytes.
  \<^item> When the commands are the same and the translated payload of one of them differs,
    the digests differ under the same two provisos.
\<close>

theorem get_hash_two_runs:
  assumes "json_dumps L' = json_dumps L" and "xxh3_64 L' = xxh3_64 L"
  shows "length (get_hash L cs) = 8 \<and>
    ((\<forall>c \<in> set cs. payload L' [c] = payload L [c]) \<and> mset cs' = mset cs \<and>
       distinct (map qualified_name cs) \<longrightarrow>
     get_hash L' cs' = get_hash L cs) \<and>
    ((\<forall>c \<in> set cs'. payload L' [c] = payload L [c]) \<and>
       inj_on (\<lambda>c. payload L [c]) (set cs \<union> set cs') \<and> mset cs' \<noteq> mset cs \<and>
       inj_on (json_dumps L) {payload L' (tree_commands cs'), payload L (tree_commands cs)} \<and>
       inj_on (\<lambda>d. xxh3_64 L d 1)
         {json_dumps L (payload L' (tree_commands cs')),
          json_dumps L (payload L (tree_commands cs))} \<longrightarrow>
     get_hash L' cs' \<noteq> get_hash L cs) \<and>
    ((\<exists>c \<in> set cs. payload L' [c] \<noteq> payload L [c]) \<and>
       inj_on (json_dumps L) {payload L' (tree_commands cs), payload L (tree_commands cs)} \<and>
       inj_on (\<lambda>d. xxh3_64 L d 1)
         {json_dumps L (payload L' (tree_commands cs)),
          json_dumps L (payload L (tree_commands cs))} \<longrightarrow>
     get_hash L' cs \<noteq> get_hash L cs)"
proof (intro conjI impI)
  show "length (get_hash L cs) = 8" by (rule length_get_hash)
next
  assume h: "(\<forall>c \<in> set cs. payload L' [c] = payload L [c]) \<and> mset cs' = mset cs \<and>
       distinct (map qualified_name cs)"
  then have "mset cs = mset cs'" "distinct (map qualified_name cs)" by simp_all
  then have t: "tree_commands cs = tree_commands cs'" by (rule tree_commands_perm)
  from h have "\<forall>c \<in> set (tree_commands cs). payload L' [c] = payload L [c]"
    by (simp add: tree_commands_def)
  then have p: "payload L' (tree_commands cs) = payload L (tree_commands cs)"
    by (rule payload_cong)
  show "get_hash L' cs' = get_hash L cs"
    unfolding get_hash_def assms t [symmetric] p ..
next
  assume h: "(\<forall>c \<in> set cs'. payload L' [c] = payload L [c]) \<and>
       inj_on (\<lambda>c. payload L [c]) (set cs \<union> set cs') \<and> mset cs' \<noteq> mset cs \<and>
       inj_on (json_dumps L) {payload L' (tree_commands cs'), payload L (tree_commands cs)} \<and>
       inj_on (\<lambda>d. xxh3_64 L d 1)
         {json_dumps L (payload L' (tree_commands cs')),
          json_dumps L (payload L (tree_commands cs))}"
  then have i1: "inj_on (json_dumps L)
      {payload L' (tree_commands cs'), payload L (tree_commands cs)}"
    and i2: "inj_on (\<lambda>d. xxh3_64 L d 1)
         {json_dumps L (payload L' (tree_commands cs')),
          json_dumps L (payload L (tree_commands cs))}"
    and i3: "inj_on (\<lambda>c. payload L [c]) (set cs \<union> set cs')" and i4: "mset cs' \<noteq> mset cs"
    by blast+
  from h have "\<forall>c \<in> set (tree_commands cs'). payload L' [c] = payload L [c]"
    by (simp add: tree_commands_def)
  then have e: "payload L' (tree_commands cs') = payload L (tree_commands cs')"
    by (rule payload_cong)
  have "payload L (tree_commands cs') \<noteq> payload L (tree_commands cs)"
    using i3 i4 by (rule payload_differs_on_change)
  then have ne: "payload L' (tree_commands cs') \<noteq> payload L (tree_commands cs)"
    unfolding e .
  show "get_hash L' cs' \<noteq> get_hash L cs"
    unfolding get_hash_def by (rule digest_differs [OF assms ne i1 i2])
next
  assume h: "(\<exists>c \<in> set cs. payload L' [c] \<noteq> payload L [c]) \<and>
       inj_on (json_dumps L) {payload L' (tree_commands cs), payload L (tree_commands cs)} \<and>
       inj_on (\<lambda>d. xxh3_64 L d 1)
         {json_dumps L (payload L' (tree_commands cs)),
          json_dumps L (payload L (tree_commands cs))}"
  then have i1: "inj_on (json_dumps L)
      {payload L' (tree_commands cs), payload L (tree_commands cs)}"
    and i2: "inj_on (\<lambda>d. xxh3_64 L d 1)
         {json_dumps L (payload L' (tree_commands cs)),
          json_dumps L (payload L (tree_commands cs))}"
    by blast+
  from h obtain c where "c \<in> set cs" "payload L' [c] \<noteq> payload L [c]" by blast
  then have ne: "payload L' (tree_commands cs) \<noteq> payload L (tree_commands cs)"
    by (rule payload_differs_on_translation)
  show "get_hash L' cs \<noteq> get_hash L cs"
    unfolding get_hash_def by (rule digest_differs [OF assms ne i1 i2])
qed

theorem get_hash_two_runs_witness:
  "mset [Command ''play'' ''play'' None, Command ''stop'' ''stop'' None] =
     mset [Command ''stop'' ''stop'' None, Command ''play'' ''play'' None] \<and>
   distinct (map qualified_name [Command ''stop'' ''stop'' None, Command ''play'' ''play'' None]) \<and>
   get_hash example_libs [Command ''play'' ''play'' None, Command ''stop'' ''stop'' None] =
     get_hash example_libs [Command ''stop'' ''stop'' None, Command ''play'' ''play'' None] \<and>
   mset [Command ''pause'' ''pause'' None] \<noteq> mset [Command ''play'' ''play'' None] \<and>
   get_hash example_libs [Command ''pause'' ''pause'' None] \<noteq>
     get_hash example_libs [Command ''play'' ''play'' None] \<and>
   payload (example_libs\<lparr>translator := Some (\<lambda>c. ''jouer'')\<rparr>) [Command ''play'' ''play'' None] \<noteq>
     payload example_libs [Command ''play'' ''play'' None] \<and>
   get_hash (example_libs\<lparr>translator := Some (\<lambda>c. ''jouer'')\<rparr>)
       [Command ''play'' ''play'' None] \<noteq>
     get_hash example_libs [Command ''play'' ''play'' None]"
proof -
  let ?stop = "Command ''stop'' ''stop'' None"
  let ?play = "Command ''play'' ''play'' None"
  let ?pause = "Command ''pause'' ''pause'' None"
  let ?L = "example_libs"
  let ?T = "example_libs\<lparr>translator := Some (\<lambda>c. ''jouer'')\<rparr>"
  have s1: "json_dumps ?L = json_dumps ?L" "xxh3_64 ?L = xxh3_64 ?L" by simp_all
  have s2: "json_dumps ?T = json_dumps ?L" "xxh3_64 ?T = xxh3_64 ?L" by simp_all
  have t1: "tree_commands [?play] = [?play]" "tree_commands [?pause] = [?pause]"
    by (simp_all add: tree_commands_def)
  have p1: "payload ?L [?play] = [''play'']" "payload ?L [?pause] = [''pause'']"
    "payload ?L [?stop] = [''stop'']" "payload ?T [?play] = [''jouer'']"
    by (simp_all add: payload_def example_libs_def)
  have a1: "\<forall>c \<in> set [?stop, ?play]. payload ?L [c] = payload ?L [c]" by simp
  have a2: "mset [?play, ?stop] = mset [?stop, ?play]" by simp
  have a3: "distinct (map qualified_name [?stop, ?play])" by simp
  have b1: "\<forall>c \<in> set [?pause]. payload ?L [c] = payload ?L [c]" by simp
  have b2: "inj_on (\<lambda>c. payload ?L [c]) (set [?play] \<union> set [?pause])"
    by (simp add: p1)
  have b3: "mset [?pause] \<noteq> mset [?play]" by simp
  have j1: "json_dumps ?L [''pause''] \<noteq> json_dumps ?L [''play'']"
    by (simp add: example_libs_def)
  have j2: "json_dumps ?L [''jouer''] \<noteq> json_dumps ?L [''play'']"
    by (simp add: example_libs_def)
  have l1: "length (json_dumps ?L [''pause'']) = 5" "length (json_dumps ?L [''play'']) = 4"
    "length (json_dumps ?L [''jouer'']) = 5"
    by (simp_all add: example_libs_def)
  have x: "xxh3_64 ?L d 1 = of_nat (length d) + 1" for d
    by (simp add: example_libs_def)
  have x1: "xxh3_64 ?L (json_dumps ?L [''pause'']) 1 \<noteq> xxh3_64 ?L (json_dumps ?L [''play'']) 1"
    unfolding x l1 by simp
  have x2: "xxh3_64 ?L (json_dumps ?L [''jouer'']) 1 \<noteq> xxh3_64 ?L (json_dumps ?L [''play'']) 1"
    unfolding x l1 by simp
  have b4: "inj_on (json_dumps ?L)
      {payload ?L (tree_commands [?pause]), payload ?L (tree_commands [?play])}"
    unfolding t1 p1 using j1 by (simp add: inj_on_def)
  have b5: "inj_on (\<lambda>d. xxh3_64 ?L d 1)
      {json_dumps ?L (payload ?L (tree_commands [?pause])),
       json_dumps ?L (payload ?L (tree_commands [?play]))}"
    unfolding t1 p1 using x1 by (simp add: inj_on_def)
  have c1: "\<exists>c \<in> set [?play]. payload ?T [c] \<noteq> payload ?L [c]" by (simp add: p1)
  have c2: "inj_on (json_dumps ?L)
      {payload ?T (tree_commands [?play]), payload ?L (tree_commands [?play])}"
    unfolding t1 p1 using j2 by (simp add: inj_on_def)
  have c3: "inj_on (\<lambda>d. xxh3_64 ?L d 1)
      {json_dumps ?L (payload ?T (tree_commands [?play])),
       json_dumps ?L (payload ?L (tree_commands [?play]))}"
    unfolding t1 p1 using x2 by (simp add: inj_on_def)
  have c4: "payload ?T [?play] \<noteq> payload ?L [?play]" by (simp add: p1)
  from get_hash_two_runs [OF s1, of "[?stop, ?play]" "[?play, ?stop]"] a1 a2 a3
  have r1: "get_hash ?L [?play, ?stop] = get_hash ?L [?stop, ?play]" by blast
  from get_hash_two_runs [OF s1, of "[?play]" "[?pause]"] b1 b2 b3 b4 b5
  have r2: "get_hash ?L [?pause] \<noteq> get_hash ?L [?play]" by blast
  from get_hash_two_runs [OF s2, of "[?play]" "[?play]"] c1 c2 c3
  have r3: "get_hash ?T [?play] \<noteq> get_hash ?L [?play]" by blast
  from a2 a3 r1 b3 r2 c4 r3 show ?thesis by blast
qed

text \<open>
  C3 as stated fails in its second half, in two ways. Line 121 reads
  \<^verbatim>\<open>_get_all_commands(guild=None)\<close>: a command declared for a guild only is not among the
  commands hashed, so renaming \<^verbatim>\<open>skip\<close> of guild 5 to \<^verbatim>\<open>next\<close> leaves the digest as
  it was, whatever the libraries. And for the global commands no choice of the libraries
  makes every change of a name change the digest: the names are unbounded and the digest
  has eight bytes.
\<close>

theorem digest_change_counterexample:
  "walk_commands
     (example_state\<lparr>walk_commands :=
        (walk_commands example_state)(Some 5 := [Command ''skip'' ''skip'' None])\<rparr>) (Some 5) =
     [Command ''skip'' ''skip'' None] \<and>
   walk_commands
     (example_state\<lparr>walk_commands :=
        (walk_commands example_state)(Some 5 := [Command ''next'' ''next'' None])\<rparr>) (Some 5) =
     [Command ''next'' ''next'' None] \<and>
   (\<forall>L :: string libs.
      get_hash L (get_all_commands
        (example_state\<lparr>walk_commands :=
           (walk_commands example_state)(Some 5 := [Command ''skip'' ''skip'' None])\<rparr>)) =
      get_hash L (get_all_commands
        (example_state\<lparr>walk_commands :=
           (walk_commands example_state)(Some 5 := [Command ''next'' ''next'' None])\<rparr>))) \<and>
   \<not> (\<exists>L :: string libs. \<forall>n n'. n \<noteq> n' \<longrightarrow>
        get_hash L [Command n n None] \<noteq> get_hash L [Command n' n' None])"
proof (intro conjI)
  show "\<not> (\<exists>L :: string libs. \<forall>n n'. n \<noteq> n' \<longrightarrow>
        get_hash L [Command n n None] \<noteq> get_hash L [Command n' n' None])"
  proof
    assume "\<exists>L :: string libs. \<forall>n n'. n \<noteq> n' \<longrightarrow>
        get_hash L [Command n n None] \<noteq> get_hash L [Command n' n' None]"
    then obtain L :: "string libs" where
      L: "\<forall>n n'. n \<noteq> n' \<longrightarrow> get_hash L [Command n n None] \<noteq> get_hash L [Command n' n' None]"
      ..
    let ?f = "\<lambda>n. get_hash L [Command n n None]"
    from L have "inj ?f" by (auto simp: inj_on_def)
    moreover have "range ?f \<subseteq> {bs :: byte list. set bs \<subseteq> UNIV \<and> length bs = 8}"
      by (auto simp: length_get_hash)
    then have "finite (range ?f)"
      by (rule finite_subset) (rule finite_lists_length_eq, simp)
    ultimately have "finite (UNIV :: string set)" by (rule finite_imageD [rotated])
    then show False by (simp add: infinite_UNIV_listI)
  qed
qed simp_all

subsection \<open>The conditional sync\<close>

text \<open>
  C1. When the digest file holds exactly the freshly computed digest,
  \<^verbatim>\<open>sync_if_commands_updated\<close> returns with the state as it was: no effect is added to
  the trace, so no push is made, and the bytes of the file are unchanged.
\<close>

theorem sync_skipped_when_digest_equal:
  assumes "tree_hash_file st = Some (get_hash L (get_all_commands st))"
  shows "sync_if_commands_updated L rem st = (Inr (), st) \<and>
         new_effects st (snd (sync_if_commands_updated L rem st)) = [] \<and>
         tree_hash_file (snd (sync_if_commands_updated L rem st)) = tree_hash_file st"
proof -
  from assms have "resolve_path_with_links (tree_hash_file st) = tree_hash_file st"
    by (simp add: resolve_path_with_links_def)
  with assms have "sync_if_commands_updated L rem st = (Inr (), st)"
    by (simp add: sync_if_commands_updated_def read_file_def Let_def)
  then show ?thesis by (simp add: new_effects_def)
qed

theorem sync_skipped_when_digest_equal_witness:
  "tree_hash_file
     (example_state\<lparr>tree_hash_file :=
        Some (get_hash example_libs (get_all_commands example_state))\<rparr>) =
     Some (get_hash example_libs
       (get_all_commands (example_state\<lparr>tree_hash_file :=
          Some (get_hash example_libs (get_all_commands example_state))\<rparr>))) \<and>
   sync_if_commands_updated example_libs failing_remote
     (example_state\<lparr>tree_hash_file :=
        Some (get_hash example_libs (get_all_commands example_state))\<rparr>) =
     (Inr (), example_state\<lparr>tree_hash_file :=
        Some (get_hash example_libs (get_all_commands example_state))\<rparr>) \<and>
   trace (snd (sync_if_commands_updated example_libs failing_remote
     (example_state\<lparr>tree_hash_file :=
        Some (get_hash example_libs (get_all_commands example_state))\<rparr>))) = []"
proof -
  let ?st = "example_state\<lparr>tree_hash_file :=
        Some (get_hash example_libs (get_all_commands example_state))\<rparr>"
  have h: "tree_hash_file ?st = Some (get_hash example_libs (get_all_commands ?st))" by simp
  have t: "trace ?st = []" by (simp add: example_state_def)
  from sync_skipped_when_digest_equal [OF h, of failing_remote] h t show ?thesis by simp
qed

lemma read_resolved:
  "read_file (resolve_path_with_links f) = read_file f"
  by (simp add: read_file_def resolve_path_with_links_def split: option.splits)

lemma stored_differs:
  assumes "tree_hash_file st \<noteq> Some (get_hash L (get_all_commands st))"
  shows "read_file (tree_hash_file st) \<noteq> get_hash L (get_all_commands st)"
proof (cases "tree_hash_file st")
  case None
  have "length (get_hash L (get_all_commands st)) = 8" by (rule length_get_hash)
  then have "get_hash L (get_all_commands st) \<noteq> []" by auto
  with None show ?thesis by (simp add: read_file_def)
next
  case (Some b)
  with assms show ?thesis by (simp add: read_file_def)
qed

lemma sync_if_commands_updated_pushed:
  assumes "tree_hash_file st \<noteq> Some (get_hash L (get_all_commands st))"
    and "rem (trace st) (Push None) = Inr ret"
  shows "sync_if_commands_updated L rem st =
           (Inr (),
            st\<lparr>application_commands := (application_commands st)(None \<mapsto> ret),
               tree_hash_file :=
                 Some (write_at_start (get_hash L (get_all_commands st))
                         (read_file (tree_hash_file st))),
               trace := trace st @ [Push None, WriteDigest (get_hash L (get_all_commands st))]\<rparr>)"
  using stored_differs [OF assms(1)] assms(2)
  by (simp add: sync_if_commands_updated_def sync_def Let_def read_resolved)

lemma sync_if_commands_updated_failed:
  assumes "tree_hash_file st \<noteq> Some (get_hash L (get_all_commands st))"
    and "rem (trace st) (Push None) = Inl e"
  shows "sync_if_commands_updated L rem st =
           (Inl e,
            st\<lparr>tree_hash_file := resolve_path_with_links (tree_hash_file st),
               trace := trace st @ [Push None]\<rparr>)"
  using stored_differs [OF assms(1)] assms(2)
  by (simp add: sync_if_commands_updated_def sync_def Let_def read_resolved)

lemma sync_if_commands_updated_pushes:
  assumes "tree_hash_file st \<noteq> Some (get_hash L (get_all_commands st))"
  shows "\<exists>es. new_effects st (snd (sync_if_commands_updated L rem st)) = Push None # es"
proof (cases "rem (trace st) (Push None)")
  case (Inl e)
  with sync_if_commands_updated_failed [where rem = rem and st = st and L = L, OF assms] show ?thesis
    by (simp add: new_effects_def)
next
  case (Inr ret)
  with sync_if_commands_updated_pushed [where rem = rem and st = st and L = L, OF assms] show ?thesis
    by (simp add: new_effects_def)
qed

text \<open>
  C2. When the digest file does not hold the freshly computed digest,
  \<^verbatim>\<open>sync_if_commands_updated\<close> makes one global push. When the push is answered, one
  write of the digest at the start of the file follows it, and these are all the effects.
  When the push raises, the error is propagated, the push is the only effect, the bytes
  of the file read as before, and the next run pushes again.
\<close>

theorem sync_pushes_then_writes:
  assumes "tree_hash_file st \<noteq> Some (get_hash L (get_all_commands st))"
    and "sync_if_commands_updated L rem st = (res, st')"
  shows "(\<forall>ret. rem (trace st) (Push None) = Inr ret \<longrightarrow>
            res = Inr () \<and>
            new_effects st st' = [Push None, WriteDigest (get_hash L (get_all_commands st))] \<and>
            tree_hash_file st' =
              Some (write_at_start (get_hash L (get_all_commands st))
                      (read_file (tree_hash_file st))) \<and>
            application_commands st' = (application_commands st)(None \<mapsto> ret)) \<and>
         (\<forall>e. rem (trace st) (Push None) = Inl e \<longrightarrow>
            res = Inl e \<and>
            new_effects st st' = [Push None] \<and>
            read_file (tree_hash_file st') = read_file (tree_hash_file st) \<and>
            application_commands st' = application_commands st \<and>
            (\<forall>rem'. \<exists>es. new_effects st' (snd (sync_if_commands_updated L rem' st')) =
                      Push None # es))"
proof (intro conjI allI impI)
  fix ret
  assume "rem (trace st) (Push None) = Inr ret"
  note p = sync_if_commands_updated_pushed [where rem = rem and st = st and L = L, OF assms(1) this]
  with assms(2) show "res = Inr ()" by simp
  from p assms(2)
  show "new_effects st st' = [Push None, WriteDigest (get_hash L (get_all_commands st))]"
    by (auto simp: new_effects_def)
  from p assms(2) show "tree_hash_file st' =
      Some (write_at_start (get_hash L (get_all_commands st)) (read_file (tree_hash_file st)))"
    by auto
  from p assms(2) show "application_commands st' = (application_commands st)(None \<mapsto> ret)"
    by auto
next
  fix e
  assume "rem (trace st) (Push None) = Inl e"
  note f = sync_if_commands_updated_failed [where rem = rem and st = st and L = L, OF assms(1) this]
  with assms(2) show "res = Inl e" by simp
  from f assms(2) show "new_effects st st' = [Push None]" by (auto simp: new_effects_def)
  from f assms(2) show r: "read_file (tree_hash_file st') = read_file (tree_hash_file st)"
    by (auto simp: read_resolved)
  from f assms(2) show "application_commands st' = application_commands st" by auto
  fix rem'
  from f assms(2) have g: "get_all_commands st' = get_all_commands st" by auto
  from f assms(2) have "tree_hash_file st' = Some (read_file (tree_hash_file st))"
    by (auto simp: resolve_path_with_links_def read_file_def split: option.splits)
  with stored_differs [OF assms(1)] g
  have "tree_hash_file st' \<noteq> Some (get_hash L (get_all_commands st'))" by simp
  then show "\<exists>es. new_effects st' (snd (sync_if_commands_updated L rem' st')) = Push None # es"
    by (rule sync_if_commands_updated_pushes)
qed

theorem sync_pushes_then_writes_witness:
  "tree_hash_file example_state \<noteq>
     Some (get_hash example_libs (get_all_commands example_state)) \<and>
   example_remote (trace example_state) (Push None) = Inr [AppCommand 42 ''play''] \<and>
   new_effects example_state
     (snd (sync_if_commands_updated example_libs example_remote example_state)) =
     [Push None, WriteDigest (get_hash example_libs (get_all_commands example_state))] \<and>
   tree_hash_file (snd (sync_if_commands_updated example_libs example_remote example_state)) =
     Some (get_hash example_libs (get_all_commands example_state)) \<and>
   failing_remote (trace example_state) (Push None) = Inl (HTTPException ''429'') \<and>
   fst (sync_if_commands_updated example_libs failing_remote example_state) =
     Inl (HTTPException ''429'') \<and>
   new_effects example_state
     (snd (sync_if_commands_updated example_libs failing_remote example_state)) = [Push None] \<and>
   read_file
     (tree_hash_file (snd (sync_if_commands_updated example_libs failing_remote example_state))) =
     []"
proof -
  let ?ok = "sync_if_commands_updated example_libs example_remote example_state"
  let ?ko = "sync_if_commands_updated example_libs failing_remote example_state"
  have h: "tree_hash_file example_state \<noteq>
     Some (get_hash example_libs (get_all_commands example_state))"
    by (simp add: example_state_def)
  have a: "example_remote (trace example_state) (Push None) = Inr [AppCommand 42 ''play'']"
    by (simp add: example_remote_def)
  have b: "failing_remote (trace example_state) (Push None) = Inl (HTTPException ''429'')"
    by (simp add: failing_remote_def)
  have f: "read_file (tree_hash_file example_state) = []"
    by (simp add: example_state_def read_file_def)
  have ok: "?ok = (fst ?ok, snd ?ok)" by simp
  have ko: "?ko = (fst ?ko, snd ?ko)" by simp
  from sync_pushes_then_writes [OF h ok] a f
  have 1: "new_effects example_state (snd ?ok) =
     [Push None, WriteDigest (get_hash example_libs (get_all_commands example_state))] \<and>
   tree_hash_file (snd ?ok) = Some (get_hash example_libs (get_all_commands example_state))"
    by (simp add: write_at_start_def)
  from sync_pushes_then_writes [OF h ko] b f
  have 2: "fst ?ko = Inl (HTTPException ''429'') \<and>
     new_effects example_state (snd ?ko) = [Push None] \<and>
     read_file (tree_hash_file (snd ?ko)) = []"
    by simp
  from h a b 1 2 show ?thesis by blast
qed

end
